theory Spec2Isabelle
  imports Complex_Main "HOL-Library.Sublist" "HOL-Library.Multiset"
begin

section \<open>Shared vocabulary\<close>

text \<open>
  The watchdog script \<^verbatim>\<open>checkstatus_quect.py\<close> talks to a modem over serial ports, to
  the resolver, to \<^verbatim>\<open>ping\<close> and to \<^verbatim>\<open>systemctl\<close>. Whatever the outside world answers
  is an argument of the model; what the script does with the answer is the function.
  A Python call either returns a value or raises: \<open>exn + 'a\<close>, with \<open>Inl\<close> the raise.
  The exceptions of the model are those the script provokes or catches; a library call
  that the script leaves outside every \<^verbatim>\<open>try\<close> and that fails only on a fault of the host
  (no shell to run a command, no directory for the diagnostics file) is taken to return.
  Text is a list of characters with code points below 256; in that range the digits of
  the pattern class \<^verbatim>\<open>\d\<close> are \<^verbatim>\<open>0\<close> to \<^verbatim>\<open>9\<close>.
\<close>

datatype exn = TypeError | ValueError | SerialException | OSError | RuntimeError

type_synonym port = string

definition is_digit :: "char \<Rightarrow> bool" where
  "is_digit c = (c \<in> set ''0123456789'')"

text \<open>\<^verbatim>\<open>m in s\<close> on strings.\<close>

fun contains :: "string \<Rightarrow> string \<Rightarrow> bool" where
  "contains m [] = (m = [])"
| "contains m (c # cs) = (prefix m (c # cs) \<or> contains m cs)"

text \<open>
  \<^verbatim>\<open>str.strip()\<close> removes white space at both ends (below 256: tab to carriage return,
  the four separators 28 to 31, space, 133 and 160); \<^verbatim>\<open>str.strip(chars)\<close> removes the
  given characters.
\<close>

definition is_space :: "char \<Rightarrow> bool" where
  "is_space c = ((of_char c :: nat) \<in> {9, 10, 11, 12, 13, 28, 29, 30, 31, 32, 133, 160})"

definition strip_where :: "(char \<Rightarrow> bool) \<Rightarrow> string \<Rightarrow> string" where
  "strip_where P s = rev (dropWhile P (rev (dropWhile P s)))"

definition strip :: "string \<Rightarrow> string" where
  "strip s = strip_where is_space s"

definition strip_chars :: "string \<Rightarrow> string \<Rightarrow> string" where
  "strip_chars chars s = strip_where (\<lambda>c. c \<in> set chars) s"

section \<open>Signal strength\<close>

text \<open>
  \<^verbatim>\<open>re.findall(r'-?\d+\.?\d*', sig_resp)\<close>. At a position the pattern matches an optional
  minus sign, one or more digits, an optional point and any further digits, each part
  as long as possible; nothing after the digits is mandatory, so no backtracking changes
  the match. \<^verbatim>\<open>findall\<close> scans from the left, takes a match where there is one and goes on
  behind it, and moves one character on where there is none.
\<close>

definition number_at :: "string \<Rightarrow> (string \<times> string) option" where
  "number_at s =
     (let ds = takeWhile is_digit s; s2 = dropWhile is_digit s
      in if ds = [] then None
         else (case s2 of
                 [] \<Rightarrow> Some (ds, [])
               | c # t \<Rightarrow>
                   if c = CHR ''.'' then Some (ds @ ''.'' @ takeWhile is_digit t, dropWhile is_digit t)
                   else Some (ds, s2)))"

fun match_number :: "string \<Rightarrow> (string \<times> string) option" where
  "match_number [] = None"
| "match_number (c # cs) =
     (if c = CHR ''-'' then map_option (\<lambda>(tok, rest). (c # tok, rest)) (number_at cs)
      else number_at (c # cs))"

lemma number_at_shorter:
  assumes "number_at s = Some (tok, rest)"
  shows "length rest < length s"
proof -
  let ?s2 = "dropWhile is_digit s"
  from assms have ne: "takeWhile is_digit s \<noteq> []"
    by (auto simp: number_at_def Let_def split: if_splits)
  then have lt: "length ?s2 < length s"
    by (cases s) (auto simp: le_imp_less_Suc length_dropWhile_le split: if_splits)
  have "length rest \<le> length ?s2"
  proof (cases ?s2)
    case Nil
    with assms ne show ?thesis
      by (simp add: number_at_def Let_def)
  next
    case (Cons c t)
    with assms ne have "rest = ?s2 \<or> rest = dropWhile is_digit t"
      by (simp add: number_at_def Let_def split: if_splits)
    then show ?thesis
      using length_dropWhile_le[of is_digit t] Cons by auto
  qed
  with lt show ?thesis by simp
qed

lemma match_number_shorter:
  "match_number s = Some (tok, rest) \<Longrightarrow> length rest < length s"
proof (cases s)
  case Nil
  assume "match_number s = Some (tok, rest)"
  with Nil show ?thesis by simp
next
  case (Cons c cs)
  assume a: "match_number s = Some (tok, rest)"
  show ?thesis
  proof (cases "c = CHR ''-''")
    case True
    with a Cons obtain tok' where "number_at cs = Some (tok', rest)"
      by auto
    from number_at_shorter[OF this] Cons show ?thesis by simp
  next
    case False
    with a Cons have "number_at s = Some (tok, rest)" by simp
    then show ?thesis by (rule number_at_shorter)
  qed
qed

function findall_numbers :: "string \<Rightarrow> string list" where
  "findall_numbers [] = []"
| "findall_numbers (c # cs) =
     (case match_number (c # cs) of
        Some (tok, rest) \<Rightarrow> tok # findall_numbers rest
      | None \<Rightarrow> findall_numbers cs)"
  by pat_completeness auto
termination
proof (relation "measure length")
  show "wf (measure length)" by simp
next
  fix c cs x2 tok rest
  assume "match_number (c # cs) = Some x2" and "(tok, rest) = x2"
  then have "match_number (c # cs) = Some (tok, rest)" by simp
  from match_number_shorter[OF this] show "(rest, c # cs) \<in> measure length"
    by simp
next
  fix c cs
  show "(cs, c # cs) \<in> measure length" by simp
qed

text \<open>
  \<^verbatim>\<open>int(s)\<close> and \<^verbatim>\<open>float(s)\<close>, for the strings over digits, minus and point that the
  pattern can yield. \<^verbatim>\<open>int\<close> takes an optional sign and one or more digits and raises
  \<^verbatim>\<open>ValueError\<close> otherwise, so on a decimal point; \<^verbatim>\<open>float\<close> also takes a point with
  digits on at least one side. The float is kept as the decimal number the string
  denotes; its rounding to a binary double is not part of the model.
\<close>

definition digits_value :: "string \<Rightarrow> nat" where
  "digits_value ds = foldl (\<lambda>n c. 10 * n + (of_char c - 48)) 0 ds"

definition negative :: "string \<Rightarrow> bool" where
  "negative s = (case s of [] \<Rightarrow> False | c # t \<Rightarrow> c = CHR ''-'')"

definition unsigned :: "string \<Rightarrow> string" where
  "unsigned s = (if negative s then tl s else s)"

definition int_literal :: "string \<Rightarrow> bool" where
  "int_literal s = (unsigned s \<noteq> [] \<and> list_all is_digit (unsigned s))"

definition int_value :: "string \<Rightarrow> int" where
  "int_value s =
     (if negative s then - int (digits_value (unsigned s)) else int (digits_value (unsigned s)))"

definition py_int :: "string \<Rightarrow> exn + int" where
  "py_int s = (if int_literal s then Inr (int_value s) else Inl ValueError)"

definition float_literal :: "string \<Rightarrow> bool" where
  "float_literal s =
     (let ip = takeWhile is_digit (unsigned s); r = dropWhile is_digit (unsigned s)
      in case r of
           [] \<Rightarrow> ip \<noteq> []
         | c # fp \<Rightarrow> c = CHR ''.'' \<and> list_all is_digit fp \<and> (ip \<noteq> [] \<or> fp \<noteq> []))"

definition float_value :: "string \<Rightarrow> real" where
  "float_value s =
     (let ip = takeWhile is_digit (unsigned s); fp = drop 1 (dropWhile is_digit (unsigned s));
          v = real (digits_value ip) + real (digits_value fp) / 10 ^ length fp
      in if negative s then - v else v)"

definition py_float :: "string \<Rightarrow> exn + real" where
  "py_float s = (if float_literal s then Inr (float_value s) else Inl ValueError)"

subsection \<open>Log lines and events\<close>

text \<open>
  Every line the script logs is a constructor of \<open>msg\<close>, with the values the line
  interpolates. What the script does to the outside is an \<open>event\<close>: a log line, a
  \<^verbatim>\<open>time.sleep\<close> (in milliseconds), a shell command given to \<^verbatim>\<open>subprocess.run\<close>, a session
  on a serial port (the \<^verbatim>\<open>with serial.Serial(...)\<close> block and the command it writes), a
  run of the connectivity check with its verdict, and the body of \<^verbatim>\<open>netdiag_log\<close> for
  an interface.
\<close>

datatype msg =
    SignalIncomplete string
  | SignalQuality int int int real
  | SignalUnexpected
  | SignalError exn
  | Detecting
  | NoDevices
  | Detected port
  | NoResponsive
  | AttemptingRestart
  | ResettingUsb
  | UsbTimeout
  | RestartingQuectel
  | QuectelCompleted
  | QuectelTimeout
  | RestartingVpn
  | VpnCompleted
  | VpnTimeout
  | EnteringFailSafe
  | StoppingServices
  | SwitchingPid port
  | PortWriteError exn
  | WaitingReenumerate
  | RequestingDhcp
  | QueryingDns
  | RawResponse string
  | DnsQueryFailed exn
  | ApplyingCarrierDns "string list"
  | FallingBackDns
  | RestartingOpenVPN
  | Banner
  | Starting
  | SystemOnline
  | ConnectivityMissing
  | RestoredAfterRestart
  | RestoredWithFailSafe
  | CannotFailSafe
  | Rebooting

datatype event =
    Log msg
  | Sleep nat
  | Run string
  | Session "port option" string
  | Connectivity bool
  | Netdiag string

text \<open>
  The class of the report the specification calls SignalReport. The script never builds
  one: the type is here to say what \<^verbatim>\<open>get_signal_strength\<close> could have returned.
\<close>

record signal_report =
  RSRP :: int
  RSRQ :: int
  RSSI :: int
  SINR :: real

definition QENG :: string where
  "QENG = ''AT+QENG='' @ [CHR 0x22] @ ''servingcell'' @ [CHR 0x22, CHR 0x0D]"

text \<open>
  The body of the \<^verbatim>\<open>try\<close> in \<^verbatim>\<open>get_signal_strength\<close>. Its argument is what the exchange on
  the port gives: the decoded reply, or the exception that opening, writing or reading
  raised. The body ends with the lines it logged and the value it returns, or raises.
\<close>

definition signal_try :: "exn + string \<Rightarrow> exn + (event list \<times> signal_report option)" where
  "signal_try io =
     (case io of
        Inl e \<Rightarrow> Inl e
      | Inr sig_resp \<Rightarrow>
          if contains ''+QENG:'' sig_resp then
            (let numbers = findall_numbers sig_resp
             in if length numbers < 4 then Inr ([Log (SignalIncomplete (strip sig_resp))], None)
                else (case drop (length numbers - 4) numbers of
                        [a, b, c, d] \<Rightarrow>
                          (case py_int a of Inl e \<Rightarrow> Inl e | Inr rsrp \<Rightarrow>
                           case py_int b of Inl e \<Rightarrow> Inl e | Inr rsrq \<Rightarrow>
                           case py_int c of Inl e \<Rightarrow> Inl e | Inr rssi \<Rightarrow>
                           case py_float d of Inl e \<Rightarrow> Inl e | Inr sinr \<Rightarrow>
                             Inr ([Log (SignalQuality rsrp rsrq rssi sinr)], None))
                      | _ \<Rightarrow> Inl ValueError))
          else Inr ([Log SignalUnexpected], None))"

text \<open>
  \<^verbatim>\<open>get_signal_strength(port)\<close>. The argument is whatever the caller passes: a device node,
  or \<^verbatim>\<open>None\<close>, on which the serial object is never opened and its first operation raises.
  \<^verbatim>\<open>except Exception as e\<close>: the exception is logged and the function ends.
\<close>

definition get_signal_strength ::
  "port option \<Rightarrow> exn + string \<Rightarrow> event list \<times> (exn + signal_report option)" where
  "get_signal_strength port io =
     (case signal_try (if port = None then Inl SerialException else io) of
        Inl e \<Rightarrow> ([Session port QENG, Log (SignalError e)], Inr None)
      | Inr (logs, r) \<Rightarrow> (Session port QENG # logs, Inr r))"

section \<open>AT port detection\<close>

text \<open>
  \<^verbatim>\<open>get_quectel_ports\<close>: of the entries of \<^verbatim>\<open>/dev/serial/by-id\<close>, each given by its base name
  and the device node it resolves to, the nodes of those whose name has the marker.
\<close>

definition get_quectel_ports :: "(string \<times> port) list \<Rightarrow> port list" where
  "get_quectel_ports by_id =
     map snd (filter (\<lambda>(name, path). contains ''usb-Quectel_EG25-G'' name) by_id)"

text \<open>
  The tasks \<^verbatim>\<open>test_port\<close> run in threads of their own and share \<^verbatim>\<open>found_flag\<close> and
  \<^verbatim>\<open>found_port\<close>. Python makes no group of statements atomic, so a task is a program
  counter over its steps, each step one access to the shared state:
  the test of the flag on entry, the session on the port (write \<^verbatim>\<open>AT\<close>, read, look for
  \<^verbatim>\<open>OK\<close>), the second test of the flag, \<^verbatim>\<open>found_flag.set()\<close>, the store to
  \<^verbatim>\<open>found_port[0]\<close>, and the log line. A schedule is the order in which the tasks take
  their steps. The field \<open>stores\<close> is a history: every value stored to \<^verbatim>\<open>found_port[0]\<close>,
  in order.
\<close>

datatype probe = Ack | NoAck | ProbeRaised exn

datatype pc = FlagTest | Probing | FlagRetest | SetFlag | StorePort | LogPort | Finished

record slot_state =
  found_flag :: bool
  found_port :: "port option"
  pcs :: "pc list"
  stores :: "port list"
  task_log :: "event list"

definition initial :: "port list \<Rightarrow> slot_state" where
  "initial candidates =
     \<lparr>found_flag = False, found_port = None, pcs = map (\<lambda>p. FlagTest) candidates,
      stores = [], task_log = []\<rparr>"

definition test_port_step :: "port list \<Rightarrow> (nat \<Rightarrow> probe) \<Rightarrow> nat \<Rightarrow> slot_state \<Rightarrow> slot_state" where
  "test_port_step candidates replies i s =
     (if i < length (pcs s) \<and> i < length candidates then
        (let port = candidates ! i
         in case pcs s ! i of
              FlagTest \<Rightarrow> s\<lparr>pcs := (pcs s)[i := if found_flag s then Finished else Probing]\<rparr>
            | Probing \<Rightarrow>
                s\<lparr>pcs := (pcs s)[i := case replies i of Ack \<Rightarrow> FlagRetest | NoAck \<Rightarrow> Finished
                                       | ProbeRaised e \<Rightarrow> Finished]\<rparr>
            | FlagRetest \<Rightarrow> s\<lparr>pcs := (pcs s)[i := if found_flag s then Finished else SetFlag]\<rparr>
            | SetFlag \<Rightarrow> s\<lparr>found_flag := True, pcs := (pcs s)[i := StorePort]\<rparr>
            | StorePort \<Rightarrow>
                s\<lparr>found_port := Some port, stores := stores s @ [port],
                  pcs := (pcs s)[i := LogPort]\<rparr>
            | LogPort \<Rightarrow>
                s\<lparr>task_log := task_log s @ [Log (Detected port)], pcs := (pcs s)[i := Finished]\<rparr>
            | Finished \<Rightarrow> s)
      else s)"

definition more_steps ::
  "port list \<Rightarrow> (nat \<Rightarrow> probe) \<Rightarrow> nat list \<Rightarrow> slot_state \<Rightarrow> slot_state" where
  "more_steps candidates replies sched s =
     foldl (\<lambda>s i. test_port_step candidates replies i s) s sched"

definition run_tasks :: "port list \<Rightarrow> (nat \<Rightarrow> probe) \<Rightarrow> nat list \<Rightarrow> slot_state" where
  "run_tasks candidates replies sched = more_steps candidates replies sched (initial candidates)"

text \<open>
  What \<^verbatim>\<open>detect_at_port\<close> meets: the entries of the device directory, what each task's
  session gives, the number of times the polling loop slept, and what the telemetry
  exchange of \<^verbatim>\<open>get_signal_strength\<close> gives. The executor is never shut down, so the tasks
  go on while the caller does; and the caller reads \<^verbatim>\<open>found_port[0]\<close> three times: in the
  test after the loop, as the argument of \<^verbatim>\<open>get_signal_strength\<close> after the settle sleep,
  and as the value it returns after the exchange. The world says which steps the tasks
  have taken before the first read, between the first and the second, and between the
  second and the third.
\<close>

record detect_world =
  by_id :: "(string \<times> port) list"
  replies :: "nat \<Rightarrow> probe"
  schedule :: "nat list"
  settle_steps :: "nat list"
  signal_steps :: "nat list"
  polls :: nat
  signal_io :: "exn + string"

text \<open>\<^verbatim>\<open>if x:\<close> on a value that is \<^verbatim>\<open>None\<close> or a string.\<close>

definition truthy :: "string option \<Rightarrow> bool" where
  "truthy x = (case x of None \<Rightarrow> False | Some s \<Rightarrow> s \<noteq> [])"

text \<open>
  The events are those of the calling thread; the lines the tasks log are in the shared
  state.
\<close>

definition detect_at_port :: "detect_world \<Rightarrow> event list \<times> port option" where
  "detect_at_port w =
     (let candidates = get_quectel_ports (by_id w)
      in if candidates = [] then ([Log Detecting, Log NoDevices], None)
         else
           (let at_test = run_tasks candidates (replies w) (schedule w);
                at_call = more_steps candidates (replies w) (settle_steps w) at_test;
                at_return = more_steps candidates (replies w) (signal_steps w) at_call;
                waited = Log Detecting # replicate (polls w) (Sleep 100)
            in if truthy (found_port at_test) then
                 (waited @ [Sleep 200] @ fst (get_signal_strength (found_port at_call) (signal_io w)),
                  found_port at_return)
               else (waited @ [Log NoResponsive], None)))"

section \<open>Connectivity check\<close>

definition DNS_HOSTS :: "string list" where
  "DNS_HOSTS = [''google.com'', ''mqtts.sibcaconnect.com'', ''commander.omniconn.ai'']"

definition PING_HOSTS :: "string list" where
  "PING_HOSTS = [''8.8.8.8'', ''1.1.1.1'']"

text \<open>
  \<^verbatim>\<open>check_dns_host\<close>: \<^verbatim>\<open>socket.gethostbyname\<close> resolves, raises \<^verbatim>\<open>socket.gaierror\<close>
  (caught, the check is \<^verbatim>\<open>False\<close>) or raises something else, which leaves the function.
\<close>

datatype lookup = Resolved | Gaierror | LookupRaised exn

fun check_dns_host :: "lookup \<Rightarrow> exn + bool" where
  "check_dns_host Resolved = Inr True"
| "check_dns_host Gaierror = Inr False"
| "check_dns_host (LookupRaised e) = Inl e"

text \<open>
  \<^verbatim>\<open>check_ping_host\<close>: \<^verbatim>\<open>subprocess.run\<close> of \<^verbatim>\<open>ping\<close> ends with a return code, or raises;
  every exception is caught there and counts as \<^verbatim>\<open>False\<close>.
\<close>

datatype ping_run = ReturnCode int | PingRaised exn

fun check_ping_host :: "ping_run \<Rightarrow> exn + bool" where
  "check_ping_host (ReturnCode rc) = Inr (rc = 0)"
| "check_ping_host (PingRaised e) = Inr False"

datatype check_type = Dns | Ping

type_synonym future = "check_type \<times> (exn + bool)"

text \<open>
  The dictionary \<^verbatim>\<open>futures\<close>: one submitted task per DNS host, then one per ping host,
  each with its tag and with what \<^verbatim>\<open>future.result()\<close> will give.
\<close>

definition futures :: "(string \<Rightarrow> lookup) \<Rightarrow> (string \<Rightarrow> ping_run) \<Rightarrow> future list" where
  "futures dns ping =
     map (\<lambda>h. (Dns, check_dns_host (dns h))) DNS_HOSTS @
     map (\<lambda>h. (Ping, check_ping_host (ping h))) PING_HOSTS"

text \<open>
  The loop over \<^verbatim>\<open>as_completed(futures)\<close>, in the order the tasks complete. A raising
  \<^verbatim>\<open>future.result()\<close> is logged and skipped (\<^verbatim>\<open>continue\<close>); the loop returns \<^verbatim>\<open>True\<close> as
  soon as both flags are set, and \<^verbatim>\<open>False\<close> falls out of its end.
\<close>

fun check_loop :: "bool \<Rightarrow> bool \<Rightarrow> future list \<Rightarrow> bool" where
  "check_loop dns_ok ping_ok [] = False"
| "check_loop dns_ok ping_ok ((check_type, Inl e) # fs) = check_loop dns_ok ping_ok fs"
| "check_loop dns_ok ping_ok ((check_type, Inr result) # fs) =
     (let dns_ok' = (if check_type = Dns \<and> result then True else dns_ok);
          ping_ok' = (if check_type = Ping \<and> result then True else ping_ok)
      in if dns_ok' \<and> ping_ok' then True else check_loop dns_ok' ping_ok' fs)"

definition check_connectivity_parallel :: "future list \<Rightarrow> bool" where
  "check_connectivity_parallel completed = check_loop False False completed"

section \<open>Sequencing\<close>

text \<open>
  A function of the script ends with the events it caused and with its value or the
  exception that left it. \<open>then_do\<close> is one statement after another: the second runs
  only if the first returned. \<open>emit\<close> causes events and returns; \<open>call\<close> is a function
  that cannot raise.
\<close>

definition then_do ::
  "event list \<times> (exn + 'a) \<Rightarrow> ('a \<Rightarrow> event list \<times> (exn + 'b)) \<Rightarrow> event list \<times> (exn + 'b)" where
  "then_do m f =
     (case m of
        (ev, Inl e) \<Rightarrow> (ev, Inl e)
      | (ev, Inr x) \<Rightarrow> (case f x of (ev', r) \<Rightarrow> (ev @ ev', r)))"

definition emit :: "event list \<Rightarrow> event list \<times> (exn + unit)" where
  "emit ev = (ev, Inr ())"

definition call :: "event list \<times> 'a \<Rightarrow> event list \<times> (exn + 'a)" where
  "call m = (fst m, Inr (snd m))"

section \<open>Network diagnostics and service restart\<close>

text \<open>
  \<^verbatim>\<open>netdiag_log(interface)\<close> has one parameter and no default for it. The argument of the
  model is the list of positional arguments of the call: with any other number than one,
  Python raises \<^verbatim>\<open>TypeError\<close> before the body runs. The body (the commands it runs and
  the block it appends to the diagnostics file) is one event.
\<close>

fun netdiag_log :: "string list \<Rightarrow> event list \<times> (exn + unit)" where
  "netdiag_log [interface] = ([Netdiag interface], Inr ())"
| "netdiag_log args = ([], Inl TypeError)"

text \<open>
  \<^verbatim>\<open>restart_connection\<close>: three commands, each with a time limit; \<^verbatim>\<open>TimeoutExpired\<close> is
  caught and logged. The sleep after the mode switch is inside the \<^verbatim>\<open>try\<close> and is skipped
  by a timeout.
\<close>

record restart_world =
  usb_timeout :: bool
  quectel_timeout :: bool
  vpn_timeout :: bool

definition restart_connection :: "restart_world \<Rightarrow> event list" where
  "restart_connection w =
     [Log AttemptingRestart, Log ResettingUsb, Run ''sudo usb_modeswitch -R -v 2c7c -p 0125''] @
     (if usb_timeout w then [Log UsbTimeout] else [Sleep 4000]) @
     [Log RestartingQuectel, Run ''sudo systemctl restart quectel_connect.service''] @
     (if quectel_timeout w then [Log QuectelTimeout] else [Log QuectelCompleted]) @
     [Sleep 5000, Log RestartingVpn, Run ''sudo systemctl restart openvpn@client.service''] @
     (if vpn_timeout w then [Log VpnTimeout] else [Log VpnCompleted]) @
     [Sleep 5000]"

section \<open>Fail-safe\<close>

text \<open>
  \<^verbatim>\<open>str.splitlines()\<close>: a line ends at a line feed, a carriage return (with the line feed
  behind it, if there is one), a vertical tab, a form feed, one of the separators 28 to 30
  or the next-line character 133. A text that ends with a line end has no empty last
  line. \<^verbatim>\<open>str.split(",")\<close>: the pieces between the commas, at least one.
\<close>

definition is_linebreak :: "char \<Rightarrow> bool" where
  "is_linebreak c = ((of_char c :: nat) \<in> {10, 11, 12, 13, 28, 29, 30, 133})"

fun splitlines_from :: "string \<Rightarrow> string \<Rightarrow> string list" where
  "splitlines_from cur [] = (if cur = [] then [] else [cur])"
| "splitlines_from cur [c] = (if is_linebreak c then [cur] else [cur @ [c]])"
| "splitlines_from cur (c # d # cs) =
     (if c = CHR 0x0D \<and> d = CHR 0x0A then cur # splitlines_from [] cs
      else if is_linebreak c then cur # splitlines_from [] (d # cs)
      else splitlines_from (cur @ [c]) (d # cs))"

definition splitlines :: "string \<Rightarrow> string list" where
  "splitlines s = splitlines_from [] s"

fun split_from :: "char \<Rightarrow> string \<Rightarrow> string \<Rightarrow> string list" where
  "split_from sep cur [] = [cur]"
| "split_from sep cur (c # cs) =
     (if c = sep then cur # split_from sep [] cs else split_from sep (cur @ [c]) cs)"

definition str_split :: "char \<Rightarrow> string \<Rightarrow> string list" where
  "str_split sep s = split_from sep [] s"

fun join :: "string \<Rightarrow> string list \<Rightarrow> string" where
  "join sep [] = []"
| "join sep [x] = x"
| "join sep (x # y # ys) = x @ sep @ join sep (y # ys)"

text \<open>
  The list \<^verbatim>\<open>parts\<close> of a line, and the loop over the lines of the reply with its
  \<^verbatim>\<open>break\<close>: \<^verbatim>\<open>dns_servers\<close> is empty until a line with the marker has two non-empty last
  parts.
\<close>

definition parts_of :: "string \<Rightarrow> string list" where
  "parts_of line = map (\<lambda>p. strip_chars [CHR 0x22] (strip p)) (str_split (CHR '','') line)"

fun dns_loop :: "string list \<Rightarrow> string list" where
  "dns_loop [] = []"
| "dns_loop (line # lines) =
     (if contains ''+CGCONTRDP:'' line then
        (let parts = parts_of line
         in if 2 \<le> length parts then
              (let dns1 = parts ! (length parts - 2); dns2 = parts ! (length parts - 1)
               in if dns1 \<noteq> [] \<and> dns2 \<noteq> [] then [dns1, dns2] else dns_loop lines)
            else dns_loop lines)
      else dns_loop lines)"

definition CGCONTRDP :: string where
  "CGCONTRDP = ''AT+CGCONTRDP=1'' @ [CHR 0x0D]"

text \<open>
  The \<^verbatim>\<open>try\<close> around the query. \<^verbatim>\<open>at_port_dns\<close> is what the second detection returned; on
  \<^verbatim>\<open>None\<close> the serial object is never opened and the write raises. Otherwise the exchange
  gives the decoded reply or raises; an exception leaves \<^verbatim>\<open>dns_servers\<close> empty.
\<close>

definition query_dns :: "port option \<Rightarrow> exn + string \<Rightarrow> event list \<times> string list" where
  "query_dns at_port_dns io =
     (case (if at_port_dns = None then Inl SerialException else io) of
        Inl e \<Rightarrow> ([Session at_port_dns CGCONTRDP, Log (DnsQueryFailed e)], [])
      | Inr response \<Rightarrow>
          ([Session at_port_dns CGCONTRDP, Log (RawResponse (strip response))],
           dns_loop (splitlines response)))"

definition resolv_conf :: "string list \<Rightarrow> string" where
  "resolv_conf dns_servers =
     (if dns_servers \<noteq> [] then
        join [CHR 0x0A] (map (\<lambda>dns. ''nameserver '' @ dns) dns_servers) @ [CHR 0x0A]
      else ''nameserver 8.8.8.8'' @ [CHR 0x0A] @ ''nameserver 8.8.4.4'' @ [CHR 0x0A])"

definition tee_resolv_conf :: "string \<Rightarrow> string" where
  "tee_resolv_conf text =
     ''echo -e '' @ [CHR 0x27] @ text @ [CHR 0x27] @ '' | sudo tee /etc/resolv.conf''"

definition apply_dns :: "string list \<Rightarrow> event list" where
  "apply_dns dns_servers =
     [Log (if dns_servers \<noteq> [] then ApplyingCarrierDns dns_servers else FallingBackDns),
      Run (tee_resolv_conf (resolv_conf dns_servers))]"

definition USBNET :: string where
  "USBNET = ''at+QCFG='' @ [CHR 0x22] @ ''usbnet'' @ [CHR 0x22] @ '',3'' @ [CHR 0x0D]"

record failsafe_world =
  switch_error :: "exn option"
  redetect :: detect_world
  dns_io :: "exn + string"

text \<open>
  The first part of \<^verbatim>\<open>fail_safe\<close>, up to the line that announces the DNS query: stop the
  services, write the profile switch (an exception of the session is caught and logged),
  wait, ask for a lease.
\<close>

definition stop_and_switch :: "port \<Rightarrow> failsafe_world \<Rightarrow> event list" where
  "stop_and_switch at_port w =
     [Log EnteringFailSafe, Log StoppingServices,
      Run ''sudo systemctl stop quectel_connect.service'',
      Run ''sudo systemctl stop openvpn@client.service'',
      Sleep 2000,
      Log (SwitchingPid at_port),
      Session (Some at_port) USBNET] @
     (case switch_error w of Some e \<Rightarrow> [Log (PortWriteError e)] | None \<Rightarrow> []) @
     [Log WaitingReenumerate, Sleep 20000,
      Log RequestingDhcp,
      Run (''sudo pkill -f '' @ [CHR 0x27] @ ''dhclient -v usb0'' @ [CHR 0x27] @ '' 2>/dev/null''),
      Run ''sudo dhclient usb0 -q'',
      Sleep 10000,
      Log QueryingDns]"

text \<open>
  \<^verbatim>\<open>fail_safe\<close>. After the resolver configuration is written the script calls
  \<^verbatim>\<open>netdiag_log()\<close> with no argument.
\<close>

definition fail_safe :: "port \<Rightarrow> failsafe_world \<Rightarrow> event list \<times> (exn + unit)" where
  "fail_safe at_port w =
     then_do (emit (stop_and_switch at_port w)) (\<lambda>_.
     then_do (call (detect_at_port (redetect w))) (\<lambda>at_port_dns.
     then_do (call (query_dns at_port_dns (dns_io w))) (\<lambda>dns_servers.
     then_do (emit (apply_dns dns_servers)) (\<lambda>_.
     then_do (netdiag_log []) (\<lambda>_.
     emit [Log RestartingOpenVPN, Run ''sudo systemctl start openvpn@client.service''])))))"

section \<open>Main watchdog\<close>

record world =
  detect1 :: detect_world
  check1 :: "future list"
  restart :: restart_world
  check2 :: "future list"
  detect2 :: detect_world
  failsafe :: failsafe_world
  check3 :: "future list"

text \<open>
  \<^verbatim>\<open>main\<close> after its first statement \<^verbatim>\<open>at_port = detect_at_port()\<close>, as a function of the
  value of the local variable \<^verbatim>\<open>at_port\<close>. The reboot command itself is a comment in the
  script; the last phase is its log line.
\<close>

definition reboot_phase :: "event list \<times> (exn + unit)" where
  "reboot_phase = emit [Log Rebooting]"

definition main_after :: "port option \<Rightarrow> world \<Rightarrow> event list \<times> (exn + unit)" where
  "main_after at_port w =
     (if check_connectivity_parallel (check1 w) then emit [Connectivity True, Log SystemOnline]
      else
        then_do (emit [Connectivity False, Log ConnectivityMissing]) (\<lambda>_.
        then_do (netdiag_log [''wwan0'']) (\<lambda>_.
        then_do (emit (restart_connection (restart w))) (\<lambda>_.
        if check_connectivity_parallel (check2 w) then
          emit [Connectivity True, Log RestoredAfterRestart]
        else
          then_do (emit [Connectivity False]) (\<lambda>_.
          then_do (call (detect_at_port (detect2 w))) (\<lambda>at_port_failsafe.
          if truthy at_port_failsafe then
            then_do (fail_safe (the at_port_failsafe) (failsafe w)) (\<lambda>_.
            if check_connectivity_parallel (check3 w) then
              emit [Connectivity True, Log RestoredWithFailSafe]
            else then_do (emit [Connectivity False]) (\<lambda>_. reboot_phase))
          else
            then_do (netdiag_log [''usb0'']) (\<lambda>_.
            then_do (emit [Log CannotFailSafe]) (\<lambda>_. reboot_phase))))))))"

definition main :: "world \<Rightarrow> event list \<times> (exn + unit)" where
  "main w =
     then_do (emit [Log Banner, Log Starting]) (\<lambda>_.
     then_do (call (detect_at_port (detect1 w))) (\<lambda>at_port.
     main_after at_port w))"

section \<open>Example worlds\<close>

text \<open>
  One modem node at \<^verbatim>\<open>/dev/ttyUSB2\<close> that acknowledges \<^verbatim>\<open>AT\<close> and answers the telemetry
  query with the reply of the specification's scenario; a device directory without a modem;
  a network on which no host resolves or answers, and one on which all do.
\<close>

definition signal_reply :: string where
  "signal_reply = ''+QENG: LTE,Online,...,-49,-14,-35,-10''"

definition one_modem :: detect_world where
  "one_modem =
     \<lparr>by_id = [(''usb-Quectel_EG25-G-if02-port0'', ''/dev/ttyUSB2'')],
      replies = (\<lambda>i. Ack), schedule = [0, 0, 0, 0, 0, 0], settle_steps = [], signal_steps = [],
      polls = 1, signal_io = Inr signal_reply\<rparr>"

definition no_modem :: detect_world where
  "no_modem =
     \<lparr>by_id = [(''usb-FTDI_FT232R_USB_UART-if00-port0'', ''/dev/ttyUSB0'')],
      replies = (\<lambda>i. NoAck), schedule = [], settle_steps = [], signal_steps = [],
      polls = 0, signal_io = Inl SerialException\<rparr>"

text \<open>
  Two nodes of the modem that both acknowledge \<^verbatim>\<open>AT\<close>. Both tasks pass the second test of
  the flag before either sets it; the first task stores its port before the caller looks,
  the second one while the caller is in the telemetry exchange.
\<close>

definition racing :: detect_world where
  "racing =
     \<lparr>by_id = [(''usb-Quectel_EG25-G-if02-port0'', ''/dev/ttyUSB2''),
               (''usb-Quectel_EG25-G-if03-port0'', ''/dev/ttyUSB3'')],
      replies = (\<lambda>i. Ack), schedule = [0, 0, 1, 1, 0, 1, 0, 0], settle_steps = [],
      signal_steps = [1, 1], polls = 1, signal_io = Inr signal_reply\<rparr>"

definition offline :: "future list" where
  "offline = futures (\<lambda>h. Gaierror) (\<lambda>h. ReturnCode 1)"

definition online :: "future list" where
  "online = futures (\<lambda>h. Resolved) (\<lambda>h. ReturnCode 0)"

text \<open>
  The context-query reply of the specification's scenario, and one whose line has no
  addresses.
\<close>

definition isp_line :: string where
  "isp_line =
     ''+CGCONTRDP: 1,5,'' @ [CHR 0x22] @ ''isp.net'' @ [CHR 0x22] @ '',,,,'' @
     [CHR 0x22] @ ''10.0.0.1'' @ [CHR 0x22] @ '','' @ [CHR 0x22] @ ''10.0.0.2'' @ [CHR 0x22]"

definition isp_reply :: string where
  "isp_reply = isp_line @ [CHR 0x0D, CHR 0x0A]"

definition bare_reply :: string where
  "bare_reply = ''+CGCONTRDP: 1,5,'' @ [CHR 0x22] @ ''isp.net'' @ [CHR 0x22] @ '',,,,,'' @
     [CHR 0x0D, CHR 0x0A]"

definition with_carrier :: failsafe_world where
  "with_carrier = \<lparr>switch_error = Some SerialException, redetect = one_modem, dns_io = Inr isp_reply\<rparr>"

definition without_carrier :: failsafe_world where
  "without_carrier = \<lparr>switch_error = Some SerialException, redetect = one_modem, dns_io = Inr bare_reply\<rparr>"

definition smooth :: restart_world where
  "smooth = \<lparr>usb_timeout = False, quectel_timeout = False, vpn_timeout = False\<rparr>"

text \<open>
  Three runs of the watchdog: the link is up; the link stays down and the modem answers;
  the link stays down and no modem is found.
\<close>

definition healthy :: world where
  "healthy =
     \<lparr>detect1 = one_modem, check1 = online, restart = smooth, check2 = online,
      detect2 = one_modem, failsafe = with_carrier, check3 = online\<rparr>"

definition stuck :: world where
  "stuck =
     \<lparr>detect1 = one_modem, check1 = offline, restart = smooth, check2 = offline,
      detect2 = one_modem, failsafe = with_carrier, check3 = offline\<rparr>"

definition unplugged :: world where
  "unplugged =
     \<lparr>detect1 = no_modem, check1 = offline, restart = smooth, check2 = offline,
      detect2 = no_modem, failsafe = without_carrier, check3 = offline\<rparr>"

section \<open>Shapes used in the proofs\<close>

text \<open>
  What a token of \<open>findall_numbers\<close> looks like: digits, then possibly a point and further
  digits, and possibly a minus sign in front.
\<close>

definition unsigned_token :: "string \<Rightarrow> bool" where
  "unsigned_token u \<longleftrightarrow>
     (\<exists>ip fp. ip \<noteq> [] \<and> list_all is_digit ip \<and> list_all is_digit fp \<and>
        (u = ip \<or> u = ip @ ''.'' @ fp))"

definition number_token :: "string \<Rightarrow> bool" where
  "number_token t \<longleftrightarrow> unsigned_token t \<or> (\<exists>u. t = CHR ''-'' # u \<and> unsigned_token u)"

text \<open>
  The specification's words for the DNS reply: a line with the marker \<^verbatim>\<open>+CGCONTRDP:\<close> whose
  last two fields, split at commas and stripped of quotes, are both non-empty, and the
  pair of those two fields.
\<close>

definition carrier_line :: "string \<Rightarrow> bool" where
  "carrier_line line \<longleftrightarrow>
     contains ''+CGCONTRDP:'' line \<and> 2 \<le> length (parts_of line) \<and>
     last (butlast (parts_of line)) \<noteq> [] \<and> last (parts_of line) \<noteq> []"

definition carrier_dns :: "string \<Rightarrow> string list" where
  "carrier_dns line = [last (butlast (parts_of line)), last (parts_of line)]"

text \<open>The events \<^verbatim>\<open>detect_at_port\<close> can cause.\<close>

fun detect_event :: "event \<Rightarrow> bool" where
  "detect_event (Log Detecting) = True"
| "detect_event (Log NoDevices) = True"
| "detect_event (Log NoResponsive) = True"
| "detect_event (Log (SignalIncomplete s)) = True"
| "detect_event (Log (SignalQuality a b c d)) = True"
| "detect_event (Log SignalUnexpected) = True"
| "detect_event (Log (SignalError e)) = True"
| "detect_event (Log m) = False"
| "detect_event (Sleep n) = True"
| "detect_event (Session p c) = (c = QENG)"
| "detect_event e = False"

text \<open>
  The events of a run up to the first recheck, and up to the end of the detection that
  opens the fail-safe tier.
\<close>

definition to_recheck :: "world \<Rightarrow> event list" where
  "to_recheck w =
     [Log Banner, Log Starting] @ fst (detect_at_port (detect1 w)) @
     [Connectivity False, Log ConnectivityMissing, Netdiag ''wwan0''] @
     restart_connection (restart w)"

definition to_gate :: "world \<Rightarrow> event list" where
  "to_gate w = to_recheck w @ [Connectivity False] @ fst (detect_at_port (detect2 w))"

section \<open>Properties of the connectivity check\<close>

lemma check_loop_iff:
  "\<not> (d \<and> p) \<Longrightarrow> check_loop d p fs \<longleftrightarrow>
     ((d \<or> (Dns, Inr True) \<in> set fs) \<and> (p \<or> (Ping, Inr True) \<in> set fs))"
proof (induction d p fs rule: check_loop.induct)
  case (1 dns_ok ping_ok)
  then show ?case by simp
next
  case (2 dns_ok ping_ok check_type e fs)
  then show ?case by simp
next
  case (3 dns_ok ping_ok check_type result fs)
  show ?case
  proof (cases "(if check_type = Dns \<and> result then True else dns_ok) \<and>
                (if check_type = Ping \<and> result then True else ping_ok)")
    case True
    with 3(2) show ?thesis by (cases check_type; cases result) auto
  next
    case False
    with 3(1)[OF refl refl False] 3(2) show ?thesis
      by (cases check_type; cases result) auto
  qed
qed

lemma check_connectivity_parallel_iff:
  "check_connectivity_parallel fs \<longleftrightarrow> (Dns, Inr True) \<in> set fs \<and> (Ping, Inr True) \<in> set fs"
  unfolding check_connectivity_parallel_def by (simp add: check_loop_iff)

lemma dns_future_iff:
  "(Dns, Inr True) \<in> set (futures dns ping) \<longleftrightarrow> (\<exists>h \<in> set DNS_HOSTS. dns h = Resolved)"
proof -
  have "Inr True = check_dns_host l \<longleftrightarrow> l = Resolved" for l
    by (cases l) simp_all
  then show ?thesis
    unfolding futures_def by (simp add: image_iff)
qed

lemma ping_future_iff:
  "(Ping, Inr True) \<in> set (futures dns ping) \<longleftrightarrow> (\<exists>h \<in> set PING_HOSTS. ping h = ReturnCode 0)"
proof -
  have "Inr True = check_ping_host r \<longleftrightarrow> r = ReturnCode 0" for r
    by (cases r) auto
  then show ?thesis
    unfolding futures_def by (simp add: image_iff)
qed

text \<open>
  Claim C3. Whatever each host answers and in whatever order the five tasks complete,
  \<^verbatim>\<open>check_connectivity_parallel\<close> returns \<^verbatim>\<open>True\<close> exactly when some DNS host resolved
  and some ping host answered with return code 0. In particular it returns \<^verbatim>\<open>False\<close>
  when every DNS host fails, also if a ping host succeeds.
\<close>

theorem check_connectivity_parallel_lenient:
  assumes "mset completed = mset (futures dns ping)"
  shows "check_connectivity_parallel completed \<longleftrightarrow>
           (\<exists>h \<in> set DNS_HOSTS. dns h = Resolved) \<and> (\<exists>h \<in> set PING_HOSTS. ping h = ReturnCode 0)"
proof -
  from assms have "set completed = set (futures dns ping)"
    by (rule mset_eq_setD)
  then show ?thesis
    unfolding check_connectivity_parallel_iff
    by (simp only: dns_future_iff ping_future_iff)
qed

text \<open>
  The scenario of the specification: no DNS host resolves and every ping host answers,
  with the tasks completing in the reverse of the order they were submitted in.
\<close>

theorem check_connectivity_parallel_lenient_witness:
  "mset (rev (futures (\<lambda>h. Gaierror) (\<lambda>h. ReturnCode 0))) =
     mset (futures (\<lambda>h. Gaierror) (\<lambda>h. ReturnCode 0)) \<and>
   \<not> check_connectivity_parallel (rev (futures (\<lambda>h. Gaierror) (\<lambda>h. ReturnCode 0)))"
  using check_connectivity_parallel_lenient
    [of "rev (futures (\<lambda>h. Gaierror) (\<lambda>h. ReturnCode 0))" "\<lambda>h. Gaierror" "\<lambda>h. ReturnCode 0"]
  by simp

section \<open>Properties of the signal reader\<close>

lemma all_digits_takeWhile: "list_all is_digit (takeWhile is_digit s)"
  by (induction s) simp_all

lemma number_at_token:
  assumes "number_at s = Some (tok, rest)"
  shows "unsigned_token tok"
proof -
  let ?ip = "takeWhile is_digit s"
  from assms have ne: "?ip \<noteq> []"
    by (auto simp: number_at_def Let_def split: if_splits)
  show ?thesis
  proof (cases "dropWhile is_digit s")
    case Nil
    with assms ne have "tok = ?ip" by (simp add: number_at_def Let_def)
    with ne show ?thesis
      unfolding unsigned_token_def using all_digits_takeWhile by blast
  next
    case (Cons c t)
    with assms ne have "tok = ?ip \<or> tok = ?ip @ ''.'' @ takeWhile is_digit t"
      by (auto simp: number_at_def Let_def split: if_splits)
    with ne show ?thesis
      unfolding unsigned_token_def using all_digits_takeWhile by blast
  qed
qed

lemma match_number_token:
  assumes "match_number s = Some (tok, rest)"
  shows "number_token tok"
proof (cases s)
  case Nil
  with assms show ?thesis by simp
next
  case (Cons c cs)
  show ?thesis
  proof (cases "c = CHR ''-''")
    case True
    with assms Cons obtain u where "number_at cs = Some (u, rest)" and "tok = c # u"
      by auto
    with True number_at_token show ?thesis
      unfolding number_token_def by blast
  next
    case False
    with assms Cons have "number_at s = Some (tok, rest)" by simp
    then show ?thesis
      unfolding number_token_def using number_at_token by blast
  qed
qed

lemma findall_numbers_tokens: "t \<in> set (findall_numbers s) \<Longrightarrow> number_token t"
proof (induction s rule: findall_numbers.induct)
  case 1
  then show ?case by simp
next
  case (2 c cs)
  show ?case
  proof (cases "match_number (c # cs)")
    case None
    with 2 show ?thesis by simp
  next
    case (Some m)
    obtain tok rest where m: "m = (tok, rest)" by (cases m)
    with Some 2 have "t = tok \<or> t \<in> set (findall_numbers rest)" by simp
    then show ?thesis
    proof
      assume "t = tok"
      with Some m match_number_token show ?thesis by blast
    next
      assume "t \<in> set (findall_numbers rest)"
      with 2(2)[OF Some m[symmetric]] show ?thesis .
    qed
  qed
qed


lemma not_digit_point [simp]: "\<not> is_digit (CHR ''.'')"
  by (simp add: is_digit_def)

lemma not_digit_minus [simp]: "\<not> is_digit (CHR ''-'')"
  by (simp add: is_digit_def)

lemma all_digits_no_point: "list_all is_digit ds \<Longrightarrow> CHR ''.'' \<notin> set ds"
  by (auto simp: list_all_iff)

lemma unsigned_token_not_negative: "unsigned_token u \<Longrightarrow> \<not> negative u"
  by (cases u) (auto simp: unsigned_token_def negative_def Cons_eq_append_conv)

lemma takeWhile_digits: "list_all is_digit ip \<Longrightarrow> takeWhile is_digit (ip @ CHR ''.'' # fp) = ip"
  by (induction ip) simp_all

lemma dropWhile_digits: "list_all is_digit ip \<Longrightarrow> dropWhile is_digit (ip @ CHR ''.'' # fp) = CHR ''.'' # fp"
  by (induction ip) simp_all

lemma takeWhile_all: "list_all is_digit ip \<Longrightarrow> takeWhile is_digit ip = ip"
  by (induction ip) simp_all

lemma dropWhile_all: "list_all is_digit ip \<Longrightarrow> dropWhile is_digit ip = []"
  by (induction ip) simp_all

lemma unsigned_token_float:
  assumes "unsigned_token u"
  shows "case dropWhile is_digit u of
           [] \<Rightarrow> takeWhile is_digit u \<noteq> []
         | c # fp \<Rightarrow> c = CHR ''.'' \<and> list_all is_digit fp \<and> (takeWhile is_digit u \<noteq> [] \<or> fp \<noteq> [])"
proof -
  from assms obtain ip fp where ip: "ip \<noteq> []" "list_all is_digit ip" and fp: "list_all is_digit fp"
    and u: "u = ip \<or> u = ip @ ''.'' @ fp"
    unfolding unsigned_token_def by blast
  from u show ?thesis
  proof
    assume "u = ip"
    with ip show ?thesis by (simp add: takeWhile_all dropWhile_all)
  next
    assume "u = ip @ ''.'' @ fp"
    with ip fp show ?thesis by (simp add: takeWhile_digits dropWhile_digits)
  qed
qed

lemma unsigned_token_int:
  assumes "unsigned_token u"
  shows "u \<noteq> [] \<and> list_all is_digit u \<longleftrightarrow> CHR ''.'' \<notin> set u"
proof -
  from assms obtain ip fp where ip: "ip \<noteq> []" "list_all is_digit ip" and fp: "list_all is_digit fp"
    and u: "u = ip \<or> u = ip @ ''.'' @ fp"
    unfolding unsigned_token_def by blast
  from u show ?thesis
  proof
    assume "u = ip"
    with ip show ?thesis by (simp add: all_digits_no_point)
  next
    assume "u = ip @ ''.'' @ fp"
    then show ?thesis by simp
  qed
qed

lemma number_token_float: "number_token t \<Longrightarrow> float_literal t"
proof -
  assume "number_token t"
  then consider "unsigned_token t" | u where "t = CHR ''-'' # u" "unsigned_token u"
    unfolding number_token_def by blast
  then show ?thesis
  proof cases
    case 1
    with unsigned_token_not_negative[OF 1] unsigned_token_float[OF 1] show ?thesis
      by (simp add: float_literal_def unsigned_def Let_def)
  next
    case 2
    with unsigned_token_float[OF 2(2)] show ?thesis
      by (simp add: float_literal_def unsigned_def negative_def Let_def)
  qed
qed

lemma number_token_int: "number_token t \<Longrightarrow> int_literal t \<longleftrightarrow> CHR ''.'' \<notin> set t"
proof -
  assume "number_token t"
  then consider "unsigned_token t" | u where "t = CHR ''-'' # u" "unsigned_token u"
    unfolding number_token_def by blast
  then show ?thesis
  proof cases
    case 1
    with unsigned_token_not_negative[OF 1] unsigned_token_int[OF 1] show ?thesis
      by (simp add: int_literal_def unsigned_def)
  next
    case 2
    with unsigned_token_int[OF 2(2)] show ?thesis
      by (simp add: int_literal_def unsigned_def negative_def)
  qed
qed

lemma last_four:
  assumes "4 \<le> length xs"
  shows "drop (length xs - 4) xs =
           [xs ! (length xs - 4), xs ! (length xs - 3), xs ! (length xs - 2), xs ! (length xs - 1)]"
proof -
  let ?n = "length xs"
  from assms have s: "Suc (?n - 4) = ?n - 3" "Suc (?n - 3) = ?n - 2" "Suc (?n - 2) = ?n - 1"
    "Suc (?n - 1) = ?n" by simp_all
  from assms have "drop (?n - 4) xs = xs ! (?n - 4) # drop (?n - 3) xs"
    using Cons_nth_drop_Suc[of "?n - 4" xs] s by simp
  also from assms have "drop (?n - 3) xs = xs ! (?n - 3) # drop (?n - 2) xs"
    using Cons_nth_drop_Suc[of "?n - 3" xs] s by simp
  also from assms have "drop (?n - 2) xs = xs ! (?n - 2) # drop (?n - 1) xs"
    using Cons_nth_drop_Suc[of "?n - 2" xs] s by simp
  also from assms have "drop (?n - 1) xs = xs ! (?n - 1) # drop ?n xs"
    using Cons_nth_drop_Suc[of "?n - 1" xs] s by simp
  finally show ?thesis by simp
qed


lemma signal_try_of_tokens:
  assumes marker: "contains ''+QENG:'' reply"
    and n: "4 \<le> length (findall_numbers reply)"
  shows "signal_try (Inr reply) =
    (let numbers = findall_numbers reply; n = length numbers;
         a = numbers ! (n - 4); b = numbers ! (n - 3); c = numbers ! (n - 2); d = numbers ! (n - 1)
     in if CHR ''.'' \<in> set (a @ b @ c) then Inl ValueError
        else Inr ([Log (SignalQuality (int_value a) (int_value b) (int_value c) (float_value d))], None))"
proof -
  let ?ns = "findall_numbers reply"
  let ?n = "length ?ns"
  have tok: "number_token (?ns ! (?n - k))" if "0 < k" "k \<le> 4" for k
  proof -
    from that n have "?n - k < ?n" by simp
    then have "?ns ! (?n - k) \<in> set ?ns" by (rule nth_mem)
    then show ?thesis by (rule findall_numbers_tokens)
  qed
  have a: "int_literal (?ns ! (?n - 4)) \<longleftrightarrow> CHR ''.'' \<notin> set (?ns ! (?n - 4))"
    by (rule number_token_int) (simp add: tok)
  have b: "int_literal (?ns ! (?n - 3)) \<longleftrightarrow> CHR ''.'' \<notin> set (?ns ! (?n - 3))"
    by (rule number_token_int) (simp add: tok)
  have c: "int_literal (?ns ! (?n - 2)) \<longleftrightarrow> CHR ''.'' \<notin> set (?ns ! (?n - 2))"
    by (rule number_token_int) (simp add: tok)
  have d: "float_literal (?ns ! (?n - 1))"
    by (rule number_token_float) (simp add: tok)
  from d have d': "float_literal (?ns ! (?n - Suc 0))" by simp
  from n have few: "\<not> ?n < 4" by simp
  show ?thesis
    unfolding signal_try_def
    by (simp add: marker few last_four[OF n] Let_def py_int_def py_float_def a b c d')
qed

lemma get_signal_strength_cases:
  "get_signal_strength (Some port) (Inr reply) =
    (Session (Some port) QENG #
      (let numbers = findall_numbers reply; n = length numbers;
           a = numbers ! (n - 4); b = numbers ! (n - 3); c = numbers ! (n - 2); d = numbers ! (n - 1)
       in if \<not> contains ''+QENG:'' reply then [Log SignalUnexpected]
          else if n < 4 then [Log (SignalIncomplete (strip reply))]
          else if CHR ''.'' \<in> set (a @ b @ c) then [Log (SignalError ValueError)]
          else [Log (SignalQuality (int_value a) (int_value b) (int_value c) (float_value d))]),
     Inr None)"
proof (cases "contains ''+QENG:'' reply")
  case False
  then show ?thesis
    by (simp add: get_signal_strength_def signal_try_def Let_def)
next
  case True
  show ?thesis
  proof (cases "length (findall_numbers reply) < 4")
    case few: True
    with True show ?thesis
      by (simp add: get_signal_strength_def signal_try_def Let_def)
  next
    case False
    then have "4 \<le> length (findall_numbers reply)" by simp
    from signal_try_of_tokens[OF True this] True False show ?thesis
      by (simp add: get_signal_strength_def Let_def)
  qed
qed

text \<open>
  Claim C4, as the code has it. A reply without the marker \<^verbatim>\<open>+QENG:\<close>, or with fewer than
  four numeric tokens, is logged as a failed parse; no report is returned and nothing is
  raised. Any other reply has its last four numeric tokens read in the fixed order RSRP,
  RSRQ, RSSI (integers) and SINR (float) and logged, provided none of the first three of
  them has a decimal point; if one has, \<^verbatim>\<open>int\<close> raises \<^verbatim>\<open>ValueError\<close>, which is caught and
  logged as a signal check error, and no values are read.
\<close>

theorem get_signal_strength_reads:
  "get_signal_strength (Some port) (Inr reply) =
    (Session (Some port) QENG #
      (let numbers = findall_numbers reply; n = length numbers;
           a = numbers ! (n - 4); b = numbers ! (n - 3); c = numbers ! (n - 2); d = numbers ! (n - 1)
       in if \<not> contains ''+QENG:'' reply then [Log SignalUnexpected]
          else if n < 4 then [Log (SignalIncomplete (strip reply))]
          else if CHR ''.'' \<in> set (a @ b @ c) then [Log (SignalError ValueError)]
          else [Log (SignalQuality (int_value a) (int_value b) (int_value c) (float_value d))]),
     Inr None)"
  by (rule get_signal_strength_cases)

lemma signal_try_None: "signal_try io = Inr (logs, r) \<Longrightarrow> r = None"
proof (cases io)
  case (Inl e)
  assume "signal_try io = Inr (logs, r)"
  with Inl show ?thesis by (simp add: signal_try_def)
next
  case (Inr reply)
  assume "signal_try io = Inr (logs, r)"
  with Inr have "get_signal_strength (Some []) (Inr reply) = (Session (Some []) QENG # logs, Inr r)"
    by (simp add: get_signal_strength_def)
  then show ?thesis
    unfolding get_signal_strength_cases by simp
qed

text \<open>
  Claim C8. For every port and every outcome of the serial exchange, a reply that parses
  included, \<^verbatim>\<open>get_signal_strength\<close> returns \<^verbatim>\<open>None\<close>: the values it reads go to the log
  only, and an exception of the exchange or of a conversion is caught inside.
\<close>

theorem get_signal_strength_returns_None:
  "snd (get_signal_strength port io) = Inr None"
proof (cases "signal_try (if port = None then Inl SerialException else io)")
  case (Inl e)
  then show ?thesis by (simp add: get_signal_strength_def)
next
  case (Inr v)
  obtain logs r where "v = (logs, r)" by (cases v)
  with Inr signal_try_None[of "if port = None then Inl SerialException else io" logs r]
  show ?thesis
    by (simp add: get_signal_strength_def)
qed

lemma example_tokens:
  "findall_numbers ''+QENG: LTE,Online,...,-49,-14,-35,-10'' = [''-49'', ''-14'', ''-35'', ''-10'']"
  by (simp add: number_at_def is_digit_def)

lemma example_marker: "contains ''+QENG:'' ''+QENG: LTE,Online,...,-49,-14,-35,-10''"
  by simp

text \<open>The telemetry reply of the specification's scenario.\<close>

theorem get_signal_strength_reads_witness:
  "get_signal_strength (Some ''/dev/ttyUSB2'') (Inr ''+QENG: LTE,Online,...,-49,-14,-35,-10'') =
     ([Session (Some ''/dev/ttyUSB2'') QENG, Log (SignalQuality (- 49) (- 14) (- 35) (- 10))], Inr None)"
  unfolding get_signal_strength_reads example_tokens
  by (simp add: int_value_def float_value_def negative_def unsigned_def digits_value_def is_digit_def)

lemma decimal_tokens: "findall_numbers ''+QENG: 1.5,2,3,4'' = [''1.5'', ''2'', ''3'', ''4'']"
  by (simp add: number_at_def is_digit_def)

text \<open>
  Claim C4 as stated fails: this reply has the marker and four numeric tokens, and its
  last four tokens are not read as a report, because the first has a decimal point.
\<close>

theorem get_signal_strength_decimal_counterexample:
  "contains ''+QENG:'' ''+QENG: 1.5,2,3,4'' \<and>
   length (findall_numbers ''+QENG: 1.5,2,3,4'') = 4 \<and>
   get_signal_strength (Some ''/dev/ttyUSB2'') (Inr ''+QENG: 1.5,2,3,4'') =
     ([Session (Some ''/dev/ttyUSB2'') QENG, Log (SignalError ValueError)], Inr None)"
  by (simp add: get_signal_strength_def signal_try_def decimal_tokens py_int_def int_literal_def
      negative_def unsigned_def is_digit_def del: findall_numbers.simps)

theorem get_signal_strength_returns_None_witness:
  "snd (get_signal_strength (Some ''/dev/ttyUSB2'')
         (Inr ''+QENG: LTE,Online,...,-49,-14,-35,-10'')) = Inr None \<and>
   snd (get_signal_strength (Some ''/dev/ttyUSB2'') (Inl SerialException)) = Inr None \<and>
   snd (get_signal_strength None (Inl SerialException)) = Inr None"
  using get_signal_strength_returns_None
      [of "Some ''/dev/ttyUSB2''" "Inr ''+QENG: LTE,Online,...,-49,-14,-35,-10''"]
    get_signal_strength_returns_None[of "Some ''/dev/ttyUSB2''" "Inl SerialException"]
    get_signal_strength_returns_None[of None "Inl SerialException"]
  by blast

section \<open>Properties of port detection and of the DNS choice\<close>

lemma last_two:
  assumes "2 \<le> length ps"
  shows "ps ! (length ps - 2) = last (butlast ps)" and "ps ! (length ps - 1) = last ps"
proof -
  from assms have "ps \<noteq> []" and "length (butlast ps) \<noteq> 0" by auto
  then have ne: "ps \<noteq> []" "butlast ps \<noteq> []" by blast+
  from assms have "last (butlast ps) = butlast ps ! (length ps - 2)"
    using last_conv_nth[OF ne(2)] by (simp add: numeral_2_eq_2)
  also from assms have "\<dots> = ps ! (length ps - 2)"
    by (simp add: nth_butlast)
  finally show "ps ! (length ps - 2) = last (butlast ps)" by simp
  from ne show "ps ! (length ps - 1) = last ps"
    by (simp add: last_conv_nth)
qed

lemma dns_loop_find:
  "dns_loop lines = (case find carrier_line lines of None \<Rightarrow> [] | Some l \<Rightarrow> carrier_dns l)"
proof (induction lines)
  case Nil
  show ?case by simp
next
  case (Cons line lines)
  show ?case
  proof (cases "carrier_line line")
    case True
    then have "2 \<le> length (parts_of line)" by (simp add: carrier_line_def)
    from last_two[OF this] True show ?thesis
      by (simp add: carrier_line_def carrier_dns_def Let_def)
  next
    case False
    show ?thesis
    proof (cases "contains ''+CGCONTRDP:'' line \<and> 2 \<le> length (parts_of line)")
      case c: True
      then have "2 \<le> length (parts_of line)" by simp
      from last_two[OF this] False c Cons show ?thesis
        by (auto simp: carrier_line_def Let_def)
    next
      case c: False
      with False Cons show ?thesis
        by (auto simp: carrier_line_def Let_def)
    qed
  qed
qed

lemma dns_loop_empty_iff: "dns_loop lines = [] \<longleftrightarrow> (\<forall>l \<in> set lines. \<not> carrier_line l)"
proof (cases "find carrier_line lines")
  case None
  then have "\<forall>l \<in> set lines. \<not> carrier_line l"
    by (simp add: find_None_iff)
  with None show ?thesis by (simp add: dns_loop_find)
next
  case (Some l)
  then have "\<exists>l \<in> set lines. carrier_line l"
    by (metis find_None_iff option.distinct(1))
  with Some show ?thesis by (simp add: dns_loop_find carrier_dns_def)
qed

lemma signal_events: "list_all detect_event (fst (get_signal_strength p io))"
proof (cases p)
  case None
  then show ?thesis by (simp add: get_signal_strength_def signal_try_def)
next
  case (Some port)
  show ?thesis
  proof (cases io)
    case (Inl e)
    with Some show ?thesis by (simp add: get_signal_strength_def signal_try_def)
  next
    case (Inr reply)
    with Some show ?thesis by (simp add: get_signal_strength_cases Let_def)
  qed
qed

lemma sleeps_events: "list_all detect_event (replicate n (Sleep k))"
  by (induction n) simp_all

lemma detect_events: "list_all detect_event (fst (detect_at_port w))"
  by (simp add: detect_at_port_def Let_def signal_events sleeps_events)

lemma fail_safe_unfold:
  "fail_safe at_port w =
     (stop_and_switch at_port w @ fst (detect_at_port (redetect w)) @
      fst (query_dns (snd (detect_at_port (redetect w))) (dns_io w)) @
      apply_dns (snd (query_dns (snd (detect_at_port (redetect w))) (dns_io w))),
      Inl TypeError)"
  by (simp add: fail_safe_def then_do_def emit_def call_def split: prod.splits)

lemma fail_safe_raises: "snd (fail_safe at_port w) = Inl TypeError"
  by (simp add: fail_safe_unfold)

lemma not_detect_event: "\<not> detect_event e \<Longrightarrow> e \<notin> set (fst (detect_at_port w))"
  using detect_events[of w] by (auto simp: list_all_iff)

lemma fallback_logged_iff:
  assumes "snd (detect_at_port (redetect w)) = Some p" and "dns_io w = Inr response"
  shows "Log FallingBackDns \<in> set (fst (fail_safe at_port w)) \<longleftrightarrow>
           dns_loop (splitlines response) = []"
proof -
  have "Log FallingBackDns \<notin> set (fst (detect_at_port (redetect w)))"
    by (rule not_detect_event) simp
  moreover have "Log FallingBackDns \<notin> set (stop_and_switch at_port w)"
    by (simp add: stop_and_switch_def split: option.splits)
  ultimately show ?thesis
    using assms by (simp add: fail_safe_unfold query_dns_def apply_dns_def)
qed

lemma carrier_applied:
  assumes "snd (detect_at_port (redetect w)) = Some p" and "dns_io w = Inr response"
    and "dns_loop (splitlines response) \<noteq> []"
  shows "Log (ApplyingCarrierDns (dns_loop (splitlines response))) \<in> set (fst (fail_safe at_port w))"
    and "Run (tee_resolv_conf (resolv_conf (dns_loop (splitlines response)))) \<in> set (fst (fail_safe at_port w))"
  using assms by (simp_all add: fail_safe_unfold query_dns_def apply_dns_def)

lemma fallback_applied:
  assumes "snd (detect_at_port (redetect w)) = Some p" and "dns_io w = Inr response"
    and "dns_loop (splitlines response) = []"
  shows "Run (tee_resolv_conf (''nameserver 8.8.8.8'' @ [CHR 0x0A] @ ''nameserver 8.8.4.4'' @ [CHR 0x0A]))
           \<in> set (fst (fail_safe at_port w))"
  using assms by (simp add: fail_safe_unfold query_dns_def apply_dns_def resolv_conf_def)

text \<open>
  Claim C5. When the second detection found a port and the context query was answered,
  \<^verbatim>\<open>fail_safe\<close> falls back to the fixed pair 8.8.8.8 and 8.8.4.4 exactly when no line of
  the reply has the marker \<^verbatim>\<open>+CGCONTRDP:\<close> and two non-empty last fields; otherwise the
  last two fields of the first such line are the carrier DNS servers it logs and writes.
\<close>

theorem fail_safe_dns_selection:
  assumes "snd (detect_at_port (redetect w)) = Some p" and "dns_io w = Inr response"
  shows "(Log FallingBackDns \<in> set (fst (fail_safe at_port w)) \<longleftrightarrow>
            (\<forall>l \<in> set (splitlines response). \<not> carrier_line l)) \<and>
         (case find carrier_line (splitlines response) of
            None \<Rightarrow>
              Run (tee_resolv_conf
                    (''nameserver 8.8.8.8'' @ [CHR 0x0A] @ ''nameserver 8.8.4.4'' @ [CHR 0x0A]))
                \<in> set (fst (fail_safe at_port w))
          | Some l \<Rightarrow>
              Log (ApplyingCarrierDns (carrier_dns l)) \<in> set (fst (fail_safe at_port w)) \<and>
              Run (tee_resolv_conf (resolv_conf (carrier_dns l))) \<in> set (fst (fail_safe at_port w)))"
proof
  show "Log FallingBackDns \<in> set (fst (fail_safe at_port w)) \<longleftrightarrow>
          (\<forall>l \<in> set (splitlines response). \<not> carrier_line l)"
    using fallback_logged_iff[OF assms] by (simp add: dns_loop_empty_iff)
next
  show "case find carrier_line (splitlines response) of
            None \<Rightarrow>
              Run (tee_resolv_conf
                    (''nameserver 8.8.8.8'' @ [CHR 0x0A] @ ''nameserver 8.8.4.4'' @ [CHR 0x0A]))
                \<in> set (fst (fail_safe at_port w))
          | Some l \<Rightarrow>
              Log (ApplyingCarrierDns (carrier_dns l)) \<in> set (fst (fail_safe at_port w)) \<and>
              Run (tee_resolv_conf (resolv_conf (carrier_dns l))) \<in> set (fst (fail_safe at_port w))"
  proof (cases "find carrier_line (splitlines response)")
    case None
    then have "dns_loop (splitlines response) = []" by (simp add: dns_loop_find)
    from fallback_applied[OF assms this] None show ?thesis by simp
  next
    case (Some l)
    then have d: "dns_loop (splitlines response) = carrier_dns l" by (simp add: dns_loop_find)
    then have "dns_loop (splitlines response) \<noteq> []" by (simp add: carrier_dns_def)
    from carrier_applied[OF assms this] d Some show ?thesis by simp
  qed
qed

lemma one_modem_port: "snd (detect_at_port one_modem) = Some ''/dev/ttyUSB2''"
  by (simp add: detect_at_port_def one_modem_def get_quectel_ports_def run_tasks_def more_steps_def
      initial_def test_port_step_def truthy_def Let_def)

lemma no_modem_port: "snd (detect_at_port no_modem) = None"
  by (simp add: detect_at_port_def no_modem_def get_quectel_ports_def)

lemma isp_lines: "splitlines isp_reply = [isp_line]"
  by (simp add: isp_reply_def isp_line_def splitlines_def is_linebreak_def)

lemma isp_parts:
  "parts_of isp_line = [''+CGCONTRDP: 1'', ''5'', ''isp.net'', [], [], [], ''10.0.0.1'', ''10.0.0.2'']"
  by (simp add: isp_line_def parts_of_def str_split_def strip_def strip_chars_def strip_where_def
      is_space_def)

lemma isp_marker: "contains ''+CGCONTRDP:'' isp_line"
  by (simp add: isp_line_def)

lemma isp_find: "find carrier_line (splitlines isp_reply) = Some isp_line"
  unfolding isp_lines by (simp add: carrier_line_def isp_parts isp_marker)

lemma isp_dns: "carrier_dns isp_line = [''10.0.0.1'', ''10.0.0.2'']"
  by (simp add: carrier_dns_def isp_parts)

text \<open>The context-query reply of the specification's scenario.\<close>

theorem fail_safe_dns_selection_witness:
  "snd (detect_at_port (redetect with_carrier)) = Some ''/dev/ttyUSB2'' \<and>
   dns_io with_carrier = Inr isp_reply \<and>
   Log FallingBackDns \<notin> set (fst (fail_safe ''/dev/ttyUSB2'' with_carrier)) \<and>
   Log (ApplyingCarrierDns [''10.0.0.1'', ''10.0.0.2''])
     \<in> set (fst (fail_safe ''/dev/ttyUSB2'' with_carrier))"
proof -
  have d: "snd (detect_at_port (redetect with_carrier)) = Some ''/dev/ttyUSB2''"
    by (simp add: with_carrier_def one_modem_port)
  have io: "dns_io with_carrier = Inr isp_reply"
    by (simp add: with_carrier_def)
  have c: "\<not> (\<forall>l \<in> set (splitlines isp_reply). \<not> carrier_line l)"
    unfolding isp_lines by (simp add: carrier_line_def isp_parts isp_marker)
  from fail_safe_dns_selection[OF d io, of "''/dev/ttyUSB2''"] c d io show ?thesis
    by (simp add: isp_find isp_dns)
qed

text \<open>
  Claim C2 says that in every interleaving at most one task stores its port in the result
  slot. Two candidates both acknowledge; each task passes the second test of the flag
  before the other has set it, and then both set the flag and store: the slot holds the
  first port and is overwritten with the second.
\<close>

theorem found_port_overwritten:
  "stores (run_tasks [''/dev/ttyUSB2'', ''/dev/ttyUSB3''] (\<lambda>i. Ack) [0, 0, 1, 1, 0, 1, 0, 0, 1, 1]) =
     [''/dev/ttyUSB2'', ''/dev/ttyUSB3''] \<and>
   found_port (run_tasks [''/dev/ttyUSB2'', ''/dev/ttyUSB3''] (\<lambda>i. Ack) [0, 0, 1, 1, 0, 1, 0, 0, 1, 1]) =
     Some ''/dev/ttyUSB3''"
  by (simp add: run_tasks_def more_steps_def initial_def test_port_step_def Let_def)

lemma get_signal_strength_first:
  "\<exists>post. fst (get_signal_strength p io) = Session p QENG # post"
  by (cases "signal_try (if p = None then Inl SerialException else io)")
     (auto simp: get_signal_strength_def)

text \<open>
  What holds of every successful detection: before it returns, the caller has slept
  0.2 seconds and then run \<^verbatim>\<open>get_signal_strength\<close> on the port the slot held at that moment.
\<close>

lemma detect_at_port_reads_slot:
  assumes "snd (detect_at_port w) = Some p"
  shows "\<exists>pre post. fst (detect_at_port w) =
           pre @ Sleep 200 #
             Session (found_port (more_steps (get_quectel_ports (by_id w)) (replies w) (settle_steps w)
                        (run_tasks (get_quectel_ports (by_id w)) (replies w) (schedule w)))) QENG # post"
proof -
  let ?c = "get_quectel_ports (by_id w)"
  let ?s = "run_tasks ?c (replies w) (schedule w)"
  let ?q = "found_port (more_steps ?c (replies w) (settle_steps w) ?s)"
  from assms have ne: "?c \<noteq> []"
    by (auto simp: detect_at_port_def Let_def split: if_splits)
  with assms have t: "truthy (found_port ?s)"
    by (auto simp: detect_at_port_def Let_def split: if_splits)
  obtain post where post: "fst (get_signal_strength ?q (signal_io w)) = Session ?q QENG # post"
    using get_signal_strength_first by blast
  from ne t have "fst (detect_at_port w) =
      (Log Detecting # replicate (polls w) (Sleep 100)) @
      Sleep 200 # fst (get_signal_strength ?q (signal_io w))"
    by (simp add: detect_at_port_def Let_def)
  with post show ?thesis by metis
qed

lemma signal_reply_tokens: "findall_numbers signal_reply = [''-49'', ''-14'', ''-35'', ''-10'']"
  by (simp add: signal_reply_def number_at_def is_digit_def)

lemma signal_reply_read:
  "get_signal_strength (Some p) (Inr signal_reply) =
     ([Session (Some p) QENG, Log (SignalQuality (- 49) (- 14) (- 35) (- 10))], Inr None)"
proof -
  have "contains ''+QENG:'' signal_reply" by (simp add: signal_reply_def)
  then show ?thesis
    unfolding get_signal_strength_cases signal_reply_tokens
    by (simp add: int_value_def float_value_def negative_def unsigned_def digits_value_def
        is_digit_def)
qed

lemma racing_slots:
  "found_port (run_tasks [''/dev/ttyUSB2'', ''/dev/ttyUSB3''] (\<lambda>i. Ack) [0, 0, 1, 1, 0, 1, 0, 0]) =
     Some ''/dev/ttyUSB2''"
  "found_port (more_steps [''/dev/ttyUSB2'', ''/dev/ttyUSB3''] (\<lambda>i. Ack) [1, 1]
     (run_tasks [''/dev/ttyUSB2'', ''/dev/ttyUSB3''] (\<lambda>i. Ack) [0, 0, 1, 1, 0, 1, 0, 0])) =
     Some ''/dev/ttyUSB3''"
  by (simp_all add: run_tasks_def more_steps_def initial_def test_port_step_def Let_def)

text \<open>
  Claim C9 says that a port returned by \<^verbatim>\<open>detect_at_port\<close> has had the telemetry exchange
  run on it before. With two nodes that acknowledge and the second task storing its port
  during the exchange, the exchange runs on \<^verbatim>\<open>/dev/ttyUSB2\<close> and the port returned is
  \<^verbatim>\<open>/dev/ttyUSB3\<close>.
\<close>

theorem detect_at_port_returns_other_port:
  "detect_at_port racing =
     ([Log Detecting, Sleep 100, Sleep 200,
       Session (Some ''/dev/ttyUSB2'') QENG, Log (SignalQuality (- 49) (- 14) (- 35) (- 10))],
      Some ''/dev/ttyUSB3'')"
proof -
  have c: "get_quectel_ports (by_id racing) = [''/dev/ttyUSB2'', ''/dev/ttyUSB3'']"
    by (simp add: racing_def get_quectel_ports_def)
  have f: "replies racing = (\<lambda>i. Ack)" "schedule racing = [0, 0, 1, 1, 0, 1, 0, 0]"
    "settle_steps racing = []" "signal_steps racing = [1, 1]" "polls racing = 1"
    "signal_io racing = Inr signal_reply"
    by (simp_all add: racing_def)
  have m: "more_steps cs rs [] s = s" for cs rs s
    by (simp add: more_steps_def)
  show ?thesis
    unfolding detect_at_port_def c f Let_def m racing_slots
    by (simp add: truthy_def signal_reply_read)
qed

section \<open>Properties of the watchdog run\<close>

lemma main_online:
  assumes "check_connectivity_parallel (check1 w)"
  shows "main w =
    ([Log Banner, Log Starting] @ fst (detect_at_port (detect1 w)) @
     [Connectivity True, Log SystemOnline], Inr ())"
  using assms by (simp add: main_def main_after_def then_do_def emit_def call_def)

lemma main_restored:
  assumes "\<not> check_connectivity_parallel (check1 w)" and "check_connectivity_parallel (check2 w)"
  shows "main w = (to_recheck w @ [Connectivity True, Log RestoredAfterRestart], Inr ())"
  using assms
  by (simp add: main_def main_after_def then_do_def emit_def call_def to_recheck_def)

lemma main_no_port:
  assumes "\<not> check_connectivity_parallel (check1 w)" and "\<not> check_connectivity_parallel (check2 w)"
    and "\<not> truthy (snd (detect_at_port (detect2 w)))"
  shows "main w = (to_gate w @ [Netdiag ''usb0'', Log CannotFailSafe, Log Rebooting], Inr ())"
  using assms
  by (simp add: main_def main_after_def then_do_def emit_def call_def to_recheck_def to_gate_def
      reboot_phase_def)

lemma main_fail_safe:
  assumes "\<not> check_connectivity_parallel (check1 w)" and "\<not> check_connectivity_parallel (check2 w)"
    and "truthy (snd (detect_at_port (detect2 w)))"
  shows "main w =
    (to_gate w @ fst (fail_safe (the (snd (detect_at_port (detect2 w)))) (failsafe w)),
     Inl TypeError)"
  using assms
  by (simp add: main_def main_after_def then_do_def emit_def call_def to_recheck_def to_gate_def
      fail_safe_unfold)

lemma entering_not_in_to_recheck: "Log EnteringFailSafe \<notin> set (to_recheck w)"
proof -
  have "Log EnteringFailSafe \<notin> set (fst (detect_at_port (detect1 w)))"
    by (rule not_detect_event) simp
  then show ?thesis
    by (simp add: to_recheck_def restart_connection_def)
qed

lemma entering_not_in_to_gate: "Log EnteringFailSafe \<notin> set (to_gate w)"
proof -
  have "Log EnteringFailSafe \<notin> set (fst (detect_at_port (detect2 w)))"
    by (rule not_detect_event) simp
  with entering_not_in_to_recheck[of w] show ?thesis
    by (simp add: to_gate_def)
qed

lemma entering_not_before_gate:
  "Log EnteringFailSafe \<notin> set ([Log Banner, Log Starting] @ fst (detect_at_port (detect1 w)) @
     [Connectivity True, Log SystemOnline])"
proof -
  have "Log EnteringFailSafe \<notin> set (fst (detect_at_port (detect1 w)))"
    by (rule not_detect_event) simp
  then show ?thesis by simp
qed

text \<open>
  Claim C6. If a run enters \<^verbatim>\<open>fail_safe\<close>, then both connectivity checks before it failed
  and the detection of that tier returned a port, the one \<^verbatim>\<open>fail_safe\<close> is called with,
  and the run is the events up to that detection followed by those of \<^verbatim>\<open>fail_safe\<close>. If
  the detection returns \<^verbatim>\<open>None\<close>, the run dumps diagnostics for \<^verbatim>\<open>usb0\<close>, logs that no
  fail-safe is possible, reaches the reboot phase and ends, without entering
  \<^verbatim>\<open>fail_safe\<close>.
\<close>

theorem fail_safe_needs_port:
  "(Log EnteringFailSafe \<in> set (fst (main w)) \<longrightarrow>
      (\<exists>p. snd (detect_at_port (detect2 w)) = Some p \<and> p \<noteq> [] \<and>
           fst (main w) = to_gate w @ fst (fail_safe p (failsafe w)))) \<and>
   (\<not> check_connectivity_parallel (check1 w) \<and> \<not> check_connectivity_parallel (check2 w) \<and>
    snd (detect_at_port (detect2 w)) = None \<longrightarrow>
      main w = (to_gate w @ [Netdiag ''usb0'', Log CannotFailSafe, Log Rebooting], Inr ()) \<and>
      Log EnteringFailSafe \<notin> set (fst (main w)))"
proof (intro conjI impI)
  assume e: "Log EnteringFailSafe \<in> set (fst (main w))"
  have c1: "\<not> check_connectivity_parallel (check1 w)"
  proof
    assume "check_connectivity_parallel (check1 w)"
    from main_online[OF this] e entering_not_before_gate[of w] show False by simp
  qed
  have c2: "\<not> check_connectivity_parallel (check2 w)"
  proof
    assume "check_connectivity_parallel (check2 w)"
    from main_restored[OF c1 this] e entering_not_in_to_recheck[of w] show False by simp
  qed
  have t: "truthy (snd (detect_at_port (detect2 w)))"
  proof (rule ccontr)
    assume "\<not> truthy (snd (detect_at_port (detect2 w)))"
    from main_no_port[OF c1 c2 this] e entering_not_in_to_gate[of w] show False by simp
  qed
  then obtain p where p: "snd (detect_at_port (detect2 w)) = Some p" "p \<noteq> []"
    by (auto simp: truthy_def split: option.splits)
  with main_fail_safe[OF c1 c2 t]
  show "\<exists>p. snd (detect_at_port (detect2 w)) = Some p \<and> p \<noteq> [] \<and>
           fst (main w) = to_gate w @ fst (fail_safe p (failsafe w))"
    by simp
next
  assume a: "\<not> check_connectivity_parallel (check1 w) \<and> \<not> check_connectivity_parallel (check2 w) \<and>
    snd (detect_at_port (detect2 w)) = None"
  then have "\<not> truthy (snd (detect_at_port (detect2 w)))" by (simp add: truthy_def)
  with a have m: "main w = (to_gate w @ [Netdiag ''usb0'', Log CannotFailSafe, Log Rebooting], Inr ())"
    by (simp add: main_no_port)
  then show "main w = (to_gate w @ [Netdiag ''usb0'', Log CannotFailSafe, Log Rebooting], Inr ())" .
  from m entering_not_in_to_gate[of w] show "Log EnteringFailSafe \<notin> set (fst (main w))"
    by simp
qed

lemma offline_fails: "\<not> check_connectivity_parallel offline"
  by (simp add: check_connectivity_parallel_iff offline_def futures_def DNS_HOSTS_def PING_HOSTS_def)

lemma online_passes: "check_connectivity_parallel online"
  by (simp add: check_connectivity_parallel_iff online_def futures_def DNS_HOSTS_def PING_HOSTS_def)

text \<open>A run that enters the fail-safe tier with a modem, and one without.\<close>

theorem fail_safe_needs_port_witness:
  "Log EnteringFailSafe \<in> set (fst (main stuck)) \<and>
   snd (detect_at_port (detect2 stuck)) = Some ''/dev/ttyUSB2'' \<and>
   fst (main stuck) = to_gate stuck @ fst (fail_safe ''/dev/ttyUSB2'' (failsafe stuck)) \<and>
   \<not> check_connectivity_parallel (check1 unplugged) \<and>
   \<not> check_connectivity_parallel (check2 unplugged) \<and>
   snd (detect_at_port (detect2 unplugged)) = None \<and>
   main unplugged =
     (to_gate unplugged @ [Netdiag ''usb0'', Log CannotFailSafe, Log Rebooting], Inr ()) \<and>
   Log EnteringFailSafe \<notin> set (fst (main unplugged))"
proof -
  have s: "\<not> check_connectivity_parallel (check1 stuck)" "\<not> check_connectivity_parallel (check2 stuck)"
    "snd (detect_at_port (detect2 stuck)) = Some ''/dev/ttyUSB2''"
    by (simp_all add: stuck_def offline_fails one_modem_port)
  then have "truthy (snd (detect_at_port (detect2 stuck)))" by (simp add: truthy_def)
  from main_fail_safe[OF s(1,2) this] s(3)
  have e: "Log EnteringFailSafe \<in> set (fst (main stuck))"
    by (simp add: fail_safe_unfold stop_and_switch_def)
  have u: "\<not> check_connectivity_parallel (check1 unplugged)"
    "\<not> check_connectivity_parallel (check2 unplugged)"
    "snd (detect_at_port (detect2 unplugged)) = None"
    by (simp_all add: unplugged_def offline_fails no_modem_port)
  from fail_safe_needs_port[of stuck] e s(3)
  have A: "fst (main stuck) = to_gate stuck @ fst (fail_safe ''/dev/ttyUSB2'' (failsafe stuck))"
    by simp
  from fail_safe_needs_port[of unplugged] u
  have B: "main unplugged =
      (to_gate unplugged @ [Netdiag ''usb0'', Log CannotFailSafe, Log Rebooting], Inr ()) \<and>
      Log EnteringFailSafe \<notin> set (fst (main unplugged))"
    by blast
  from e s(3) A u B show ?thesis by blast
qed

lemma main_starts:
  "\<exists>rest. fst (main w) =
     [Log Banner, Log Starting] @ fst (detect_at_port (detect1 w)) @
     Connectivity (check_connectivity_parallel (check1 w)) # rest"
proof (cases "check_connectivity_parallel (check1 w)")
  case True
  from main_online[OF this] True show ?thesis by simp
next
  case False
  obtain ev r where m: "main_after (snd (detect_at_port (detect1 w))) w = (ev, r)"
    by (cases "main_after (snd (detect_at_port (detect1 w))) w")
  from False obtain rest where "ev = Connectivity False # rest"
    using m by (auto simp: main_after_def then_do_def emit_def split: prod.splits sum.splits)
  with m False show ?thesis
    by (simp add: main_def then_do_def emit_def call_def)
qed

lemma main_diagnoses:
  assumes "\<not> check_connectivity_parallel (check1 w)"
  shows "\<exists>rest. fst (main w) =
     to_recheck w @ Connectivity (check_connectivity_parallel (check2 w)) # rest"
proof (cases "check_connectivity_parallel (check2 w)")
  case True
  from main_restored[OF assms this] True show ?thesis by simp
next
  case False
  show ?thesis
  proof (cases "truthy (snd (detect_at_port (detect2 w)))")
    case True
    from main_fail_safe[OF assms False this] False show ?thesis
      by (simp add: to_gate_def)
  next
    case t: False
    from main_no_port[OF assms False this] False show ?thesis
      by (simp add: to_gate_def)
  qed
qed

text \<open>
  Claim C7, as the code has it. Every run starts with \<^verbatim>\<open>detect_at_port\<close>: port discovery
  and probing and, when a port answers, a read of the signal. The first connectivity
  check comes after it. When that check fails, what lies between it and the recheck is
  the diagnostics dump for \<^verbatim>\<open>wwan0\<close> and the service restarts; no port detection and no
  read of the signal is among them.
\<close>

theorem main_detects_before_gate:
  "(\<exists>rest. fst (main w) =
      [Log Banner, Log Starting] @ fst (detect_at_port (detect1 w)) @
      Connectivity (check_connectivity_parallel (check1 w)) # rest) \<and>
   (\<not> check_connectivity_parallel (check1 w) \<longrightarrow>
      (\<exists>rest. fst (main w) =
         [Log Banner, Log Starting] @ fst (detect_at_port (detect1 w)) @
         [Connectivity False, Log ConnectivityMissing, Netdiag ''wwan0''] @
         restart_connection (restart w) @
         Connectivity (check_connectivity_parallel (check2 w)) # rest)) \<and>
   list_all (\<lambda>e. e \<noteq> Log Detecting \<and> (\<forall>p. e \<noteq> Session p QENG))
     ([Log ConnectivityMissing, Netdiag ''wwan0''] @ restart_connection (restart w))"
proof (intro conjI impI)
  show "\<exists>rest. fst (main w) =
      [Log Banner, Log Starting] @ fst (detect_at_port (detect1 w)) @
      Connectivity (check_connectivity_parallel (check1 w)) # rest"
    by (rule main_starts)
next
  assume "\<not> check_connectivity_parallel (check1 w)"
  from main_diagnoses[OF this]
  show "\<exists>rest. fst (main w) =
         [Log Banner, Log Starting] @ fst (detect_at_port (detect1 w)) @
         [Connectivity False, Log ConnectivityMissing, Netdiag ''wwan0''] @
         restart_connection (restart w) @
         Connectivity (check_connectivity_parallel (check2 w)) # rest"
    by (simp add: to_recheck_def)
next
  show "list_all (\<lambda>e. e \<noteq> Log Detecting \<and> (\<forall>p. e \<noteq> Session p QENG))
     ([Log ConnectivityMissing, Netdiag ''wwan0''] @ restart_connection (restart w))"
    by (simp add: restart_connection_def)
qed

text \<open>A run whose first check fails.\<close>

theorem main_detects_before_gate_witness:
  "\<not> check_connectivity_parallel (check1 stuck) \<and>
   (\<exists>rest. fst (main stuck) =
      [Log Banner, Log Starting] @ fst (detect_at_port (detect1 stuck)) @
      [Connectivity False, Log ConnectivityMissing, Netdiag ''wwan0''] @
      restart_connection (restart stuck) @ Connectivity False # rest)"
proof -
  have c: "\<not> check_connectivity_parallel (check1 stuck)" "\<not> check_connectivity_parallel (check2 stuck)"
    by (simp_all add: stuck_def offline_fails)
  with main_detects_before_gate[of stuck] show ?thesis by simp
qed

lemma one_modem_trace:
  "fst (detect_at_port one_modem) =
     [Log Detecting, Sleep 100, Sleep 200,
      Session (Some ''/dev/ttyUSB2'') QENG, Log (SignalQuality (- 49) (- 14) (- 35) (- 10))]"
proof -
  have c: "get_quectel_ports (by_id one_modem) = [''/dev/ttyUSB2'']"
    by (simp add: one_modem_def get_quectel_ports_def)
  have f: "replies one_modem = (\<lambda>i. Ack)" "schedule one_modem = [0, 0, 0, 0, 0, 0]"
    "settle_steps one_modem = []" "signal_steps one_modem = []" "polls one_modem = 1"
    "signal_io one_modem = Inr signal_reply"
    by (simp_all add: one_modem_def)
  have m: "more_steps cs rs [] s = s" for cs rs s
    by (simp add: more_steps_def)
  have p: "found_port (run_tasks [''/dev/ttyUSB2''] (\<lambda>i. Ack) [0, 0, 0, 0, 0, 0]) = Some ''/dev/ttyUSB2''"
    by (simp add: run_tasks_def more_steps_def initial_def test_port_step_def Let_def)
  show ?thesis
    unfolding detect_at_port_def c f Let_def m p
    by (simp add: truthy_def signal_reply_read)
qed

text \<open>
  Claim C7 as stated fails: on a healthy link with a modem attached, the run detects the
  port and reads the signal before its first and only connectivity check.
\<close>

theorem main_healthy_detects_first:
  "fst (main healthy) =
     [Log Banner, Log Starting,
      Log Detecting, Sleep 100, Sleep 200,
      Session (Some ''/dev/ttyUSB2'') QENG, Log (SignalQuality (- 49) (- 14) (- 35) (- 10)),
      Connectivity True, Log SystemOnline]"
proof -
  have "check_connectivity_parallel (check1 healthy)"
    by (simp add: healthy_def online_passes)
  from main_online[OF this] show ?thesis
    by (simp add: healthy_def one_modem_trace)
qed

text \<open>
  Claim C10. What \<^verbatim>\<open>main\<close> does after its first statement does not depend on the value
  that statement stored in \<^verbatim>\<open>at_port\<close>.
\<close>

theorem main_ignores_at_port: "main_after p w = main_after q w"
  by (simp add: main_after_def)

text \<open>With and without a port from the first detection.\<close>

theorem main_ignores_at_port_witness:
  "main_after None stuck = main_after (Some ''/dev/ttyUSB2'') stuck"
  by (rule main_ignores_at_port)

lemma isp_servers: "dns_loop (splitlines isp_reply) = [''10.0.0.1'', ''10.0.0.2'']"
  by (simp add: dns_loop_find isp_find isp_dns)

text \<open>
  Claim C1 says that no error inside \<^verbatim>\<open>fail_safe\<close> ends the run. In the run where the
  link stays down and the modem answers, \<^verbatim>\<open>main\<close> ends with \<^verbatim>\<open>TypeError\<close>: the last thing
  it does is write the resolver configuration; the VPN is not started again and the
  reboot phase is not reached.
\<close>

theorem main_stuck_raises:
  "snd (main stuck) = Inl TypeError \<and>
   last (fst (main stuck)) =
     Run (tee_resolv_conf
           (''nameserver 10.0.0.1'' @ [CHR 0x0A] @ ''nameserver 10.0.0.2'' @ [CHR 0x0A])) \<and>
   Log RestartingOpenVPN \<notin> set (fst (main stuck)) \<and>
   Log Rebooting \<notin> set (fst (main stuck))"
proof -
  have s: "\<not> check_connectivity_parallel (check1 stuck)" "\<not> check_connectivity_parallel (check2 stuck)"
    "snd (detect_at_port (detect2 stuck)) = Some ''/dev/ttyUSB2''"
    by (simp_all add: stuck_def offline_fails one_modem_port)
  then have "truthy (snd (detect_at_port (detect2 stuck)))" by (simp add: truthy_def)
  note m = main_fail_safe[OF s(1,2) this]
  have f: "failsafe stuck = with_carrier" "detect1 stuck = one_modem" "detect2 stuck = one_modem"
    "restart stuck = smooth"
    by (simp_all add: stuck_def)
  have q: "query_dns (Some ''/dev/ttyUSB2'') (Inr isp_reply) =
      ([Session (Some ''/dev/ttyUSB2'') CGCONTRDP, Log (RawResponse (strip isp_reply))],
       [''10.0.0.1'', ''10.0.0.2''])"
    by (simp add: query_dns_def isp_servers)
  have fs: "fst (fail_safe ''/dev/ttyUSB2'' with_carrier) =
      stop_and_switch ''/dev/ttyUSB2'' with_carrier @ fst (detect_at_port one_modem) @
      [Session (Some ''/dev/ttyUSB2'') CGCONTRDP, Log (RawResponse (strip isp_reply))] @
      apply_dns [''10.0.0.1'', ''10.0.0.2'']"
    by (simp add: fail_safe_unfold with_carrier_def one_modem_port q)
  from m s(3) have t: "fst (main stuck) = to_gate stuck @ fst (fail_safe ''/dev/ttyUSB2'' with_carrier)"
    and r: "snd (main stuck) = Inl TypeError"
    by (simp_all add: f)
  have l: "last (fst (main stuck)) =
     Run (tee_resolv_conf
           (''nameserver 10.0.0.1'' @ [CHR 0x0A] @ ''nameserver 10.0.0.2'' @ [CHR 0x0A]))"
    unfolding t fs by (simp add: apply_dns_def resolv_conf_def)
  have n: "Log RestartingOpenVPN \<notin> set (fst (main stuck))" "Log Rebooting \<notin> set (fst (main stuck))"
    unfolding t fs
    by (simp_all add: to_gate_def to_recheck_def f one_modem_trace restart_connection_def
        stop_and_switch_def apply_dns_def with_carrier_def)
  from r l n show ?thesis by simp
qed

end
